theory Spec2Isabelle
  imports Main
begin

section \<open>Source text and the identifier pattern\<close>

text \<open>
  Source text and identifiers are Python \<open>str\<close> values, modelled as \<open>string\<close>:
  lists of 8-bit characters, so code points above 255 are outside the model (no pattern
  class and no substring of the checks contains one). The pattern
  \<open>^[a-z_][a-z0-9_]*$\<close> is compiled without flags, so the two character classes are
  the ASCII ranges written in them.
\<close>

definition newline :: char where
  "newline = CHR 0x0A"

definition backquote :: char where
  "backquote = CHR 0x60"

definition is_lower :: "char \<Rightarrow> bool" where
  "is_lower c = (97 \<le> (of_char c :: nat) \<and> (of_char c :: nat) \<le> 122)"

definition is_digit :: "char \<Rightarrow> bool" where
  "is_digit c = (48 \<le> (of_char c :: nat) \<and> (of_char c :: nat) \<le> 57)"

definition is_underscore :: "char \<Rightarrow> bool" where
  "is_underscore c = (c = CHR ''_'')"

definition head_class :: "char \<Rightarrow> bool" where
  \<comment> \<open>the class \<open>[a-z_]\<close>\<close>
  "head_class c = (is_lower c \<or> is_underscore c)"

definition tail_class :: "char \<Rightarrow> bool" where
  \<comment> \<open>the class \<open>[a-z0-9_]\<close>\<close>
  "tail_class c = (is_lower c \<or> is_digit c \<or> is_underscore c)"

definition at_dollar :: "string \<Rightarrow> bool" where
  \<comment> \<open>Python's \<open>$\<close> without MULTILINE: at the end of the string, or just before a
      newline that is the last character of the string\<close>
  "at_dollar rest = (rest = [] \<or> rest = [newline])"

fun match_tail :: "string \<Rightarrow> bool" where
  \<comment> \<open>\<open>[a-z0-9_]*$\<close> from the current position: the star takes any number of class
      characters, then \<open>$\<close> must hold\<close>
  "match_tail [] = at_dollar []"
| "match_tail (c # cs) = ((tail_class c \<and> match_tail cs) \<or> at_dollar (c # cs))"

fun snake_case_pattern_match :: "string \<Rightarrow> bool" where
  \<comment> \<open>\<open>snake_case_pattern.match(name)\<close> yields a match object (True) or None (False);
      \<open>match\<close> anchors at position 0, where \<open>^\<close> holds\<close>
  "snake_case_pattern_match [] = False"
| "snake_case_pattern_match (c # cs) = (head_class c \<and> match_tail cs)"

definition is_snake_case :: "string \<Rightarrow> bool" where
  "is_snake_case name = snake_case_pattern_match name"

text \<open>
  The reading of the pattern given in the specification: a non-empty string whose first
  character is a lowercase letter or underscore and whose remaining characters are
  lowercase letters, digits or underscores.
\<close>

definition spec_lower_snake :: "string \<Rightarrow> bool" where
  "spec_lower_snake s = (case s of [] \<Rightarrow> False | c # cs \<Rightarrow> head_class c \<and> list_all tail_class cs)"

section \<open>Syntax trees\<close>

text \<open>
  The tree is what \<open>ast.parse\<close> returns. The checks tell apart the node classes
  FunctionDef, Assign, If, Try, Call, Name and Attribute; every other class is one of the
  two catch-all constructors, which keep the child nodes. Nodes below an expression are
  never statements, so expression-level helper nodes (\<open>arguments\<close>, \<open>arg\<close>,
  \<open>keyword\<close>, comprehensions) are \<open>OtherExpr\<close>, and statement-carrying helper nodes
  (\<open>ExceptHandler\<close>, \<open>match_case\<close>) are \<open>OtherStmt\<close>, as are the statement
  classes the checks do not name (\<open>AsyncFunctionDef\<close>, \<open>ClassDef\<close>, \<open>TryStar\<close>,
  \<open>For\<close>, \<open>Return\<close>, ...). The context markers (\<open>Load\<close>, \<open>Store\<close>) have no
  children and no check looks at them; they are left out.
\<close>

datatype expr =
    Name string
  | Attribute expr string
  | Call expr "expr list" "expr list"
  | Tuple "expr list"
  | ListExpr "expr list"
  | OtherExpr "expr list"

datatype stmt =
    FunctionDef string expr "stmt list" "expr list" "expr list" int int
  | Assign "expr list" expr
  | If expr "stmt list" "stmt list"
  | Try "stmt list" "stmt list" "stmt list" "stmt list"
  | OtherStmt "expr list" "stmt list"

datatype module = Module "stmt list"

datatype node = M module | S stmt | E expr

text \<open>
  \<open>FunctionDef name args body decorator_list returns lineno end_lineno\<close>: the fields in
  the order of \<open>ast.FunctionDef._fields\<close>; \<open>args\<close> is the \<open>arguments\<close> node with
  the parameters, their annotations and defaults below it; \<open>returns\<close> is the empty list
  or the one annotation (followed by the type parameters, where the Python version has
  them). \<open>Call func args keywords\<close>, \<open>Assign targets value\<close>,
  \<open>If test body orelse\<close>, \<open>Try body handlers orelse finalbody\<close>. In \<open>OtherStmt\<close>
  the expression children come first; their place among the children changes neither
  which statements the walk yields nor the order of the statements.
\<close>

fun iter_child_nodes :: "node \<Rightarrow> node list" where
  "iter_child_nodes (M (Module body)) = map S body"
| "iter_child_nodes (S (FunctionDef name args body decorator_list returns lineno end_lineno)) =
     E args # map S body @ map E decorator_list @ map E returns"
| "iter_child_nodes (S (Assign targets v)) = map E targets @ [E v]"
| "iter_child_nodes (S (If test body orelse)) = E test # map S body @ map S orelse"
| "iter_child_nodes (S (Try body handlers orelse finalbody)) =
     map S body @ map S handlers @ map S orelse @ map S finalbody"
| "iter_child_nodes (S (OtherStmt es ss)) = map E es @ map S ss"
| "iter_child_nodes (E (Name i)) = []"
| "iter_child_nodes (E (Attribute v a)) = [E v]"
| "iter_child_nodes (E (Call f as ks)) = E f # map E as @ map E ks"
| "iter_child_nodes (E (Tuple es)) = map E es"
| "iter_child_nodes (E (ListExpr es)) = map E es"
| "iter_child_nodes (E (OtherExpr es)) = map E es"

text \<open>The number of nodes of a subtree, the measure under which the walk terminates.\<close>

fun expr_count :: "expr \<Rightarrow> nat" where
  "expr_count (Name i) = 1"
| "expr_count (Attribute v a) = Suc (expr_count v)"
| "expr_count (Call f as ks) =
     Suc (expr_count f + sum_list (map expr_count as) + sum_list (map expr_count ks))"
| "expr_count (Tuple es) = Suc (sum_list (map expr_count es))"
| "expr_count (ListExpr es) = Suc (sum_list (map expr_count es))"
| "expr_count (OtherExpr es) = Suc (sum_list (map expr_count es))"

fun stmt_count :: "stmt \<Rightarrow> nat" where
  "stmt_count (FunctionDef name args body decorator_list returns lineno end_lineno) =
     Suc (expr_count args + sum_list (map stmt_count body)
          + sum_list (map expr_count decorator_list) + sum_list (map expr_count returns))"
| "stmt_count (Assign targets v) = Suc (sum_list (map expr_count targets) + expr_count v)"
| "stmt_count (If test body orelse) =
     Suc (expr_count test + sum_list (map stmt_count body) + sum_list (map stmt_count orelse))"
| "stmt_count (Try body handlers orelse finalbody) =
     Suc (sum_list (map stmt_count body) + sum_list (map stmt_count handlers)
          + sum_list (map stmt_count orelse) + sum_list (map stmt_count finalbody))"
| "stmt_count (OtherStmt es ss) =
     Suc (sum_list (map expr_count es) + sum_list (map stmt_count ss))"

fun node_count :: "node \<Rightarrow> nat" where
  "node_count (M (Module body)) = Suc (sum_list (map stmt_count body))"
| "node_count (S s) = stmt_count s"
| "node_count (E e) = expr_count e"

text \<open>
  \<open>ast.walk\<close>: a queue starting with the root; the front node is taken, its children are
  put at the back, the node is yielded (breadth first).
\<close>

function walk_queue :: "node list \<Rightarrow> node list" where
  "walk_queue [] = []"
| "walk_queue (n # todo) = n # walk_queue (todo @ iter_child_nodes n)"
  by pat_completeness auto
termination
proof (relation "measure (\<lambda>q. sum_list (map node_count q))")
  show "wf (measure (\<lambda>q. sum_list (map node_count q)))" by simp
next
  fix n :: node and todo :: "node list"
  have s: "map (node_count \<circ> S) ss = map stmt_count ss" for ss by simp
  have e: "map (node_count \<circ> E) es = map expr_count es" for es by simp
  have "sum_list (map node_count (iter_child_nodes n)) < node_count n"
  proof (cases n)
    case (M m)
    then show ?thesis by (cases m) (simp add: s)
  next
    case (S st)
    then show ?thesis by (cases st) (simp_all add: s e)
  next
    case (E ex)
    then show ?thesis by (cases ex) (simp_all add: e)
  qed
  then show "(todo @ iter_child_nodes n, n # todo) \<in> measure (\<lambda>q. sum_list (map node_count q))"
    by simp
qed

definition walk :: "node \<Rightarrow> node list" where
  "walk n = walk_queue [n]"

section \<open>Text helpers\<close>

fun startswith :: "string \<Rightarrow> string \<Rightarrow> bool" where
  \<comment> \<open>\<open>startswith s sub\<close>: \<open>sub\<close> is a prefix of \<open>s\<close>\<close>
  "startswith s [] = True"
| "startswith [] (c # cs) = False"
| "startswith (d # ds) (c # cs) = (d = c \<and> startswith ds cs)"

fun contains :: "string \<Rightarrow> string \<Rightarrow> bool" where
  \<comment> \<open>\<open>contains sub s\<close> is Python's \<open>sub in s\<close> on strings\<close>
  "contains sub [] = (sub = [])"
| "contains sub (c # cs) = (startswith (c # cs) sub \<or> contains sub cs)"

definition is_line_boundary :: "char \<Rightarrow> bool" where
  \<comment> \<open>the one-character line boundaries of \<open>str.splitlines\<close>: LF, VT, FF, CR, FS, GS, RS, NEL\<close>
  "is_line_boundary c =
     ((of_char c :: nat) \<in> set [0x0A, 0x0B, 0x0C, 0x0D, 0x1C, 0x1D, 0x1E, 0x85])"

fun splitlines_from :: "string \<Rightarrow> string \<Rightarrow> string list" where
  \<comment> \<open>the first argument is the line collected so far; CR LF is one boundary; no empty
      last line after a final boundary\<close>
  "splitlines_from cur [] = (if cur = [] then [] else [cur])"
| "splitlines_from cur [c] = (if is_line_boundary c then [cur] else [cur @ [c]])"
| "splitlines_from cur (c # d # rest) =
     (if c = CHR 0x0D \<and> d = CHR 0x0A then cur # splitlines_from [] rest
      else if is_line_boundary c then cur # splitlines_from [] (d # rest)
      else splitlines_from (cur @ [c]) (d # rest))"

definition splitlines :: "string \<Rightarrow> string list" where
  "splitlines s = splitlines_from [] s"

definition slice :: "'a list \<Rightarrow> int \<Rightarrow> int \<Rightarrow> 'a list" where
  \<comment> \<open>Python's \<open>xs[a:b]\<close>: a negative bound counts from the end, both are clamped\<close>
  "slice xs a b =
     (let n = int (length xs);
          lo = (if a < 0 then max (a + n) 0 else min a n);
          hi = (if b < 0 then max (b + n) 0 else min b n)
      in take (nat (hi - lo)) (drop (nat lo) xs))"

fun join :: "string \<Rightarrow> string list \<Rightarrow> string" where
  \<comment> \<open>\<open>sep.join(parts)\<close>\<close>
  "join sep [] = []"
| "join sep [p] = p"
| "join sep (p # q # ps) = p @ sep @ join sep (q # ps)"

section \<open>The reviewer\<close>

record reviewer =
  code :: string
  issues :: "string list"
  tree :: module

definition CodeReviewer :: "string \<Rightarrow> module \<Rightarrow> reviewer" where
  \<comment> \<open>\<open>__init__\<close>; the second argument is the result of \<open>ast.parse(code)\<close>\<close>
  "CodeReviewer c parsed = \<lparr>code = c, issues = [], tree = parsed\<rparr>"

definition append_issue :: "string \<Rightarrow> reviewer \<Rightarrow> reviewer" where
  \<comment> \<open>\<open>self.issues.append(msg)\<close>\<close>
  "append_issue msg r = r\<lparr>issues := issues r @ [msg]\<rparr>"

definition quoted :: "string \<Rightarrow> string" where
  \<comment> \<open>the name between two backquotes, as the f-strings write it\<close>
  "quoted name = backquote # name @ [backquote]"

definition function_name_message :: "string \<Rightarrow> string" where
  "function_name_message name = ''Function name '' @ quoted name @ '' must be lower_snake_case.''"

definition variable_name_message :: "string \<Rightarrow> string" where
  "variable_name_message name = ''Variable name '' @ quoted name @ '' must be lower_snake_case.''"

definition missing_try_message :: "string \<Rightarrow> string" where
  "missing_try_message name = ''Endpoint '' @ quoted name @ '' missing try/except block.''"

definition missing_json_message :: "string \<Rightarrow> string" where
  "missing_json_message name = ''Endpoint '' @ quoted name @ '' must return a JSON response.''"

definition missing_validation_message :: "string \<Rightarrow> string" where
  "missing_validation_message name =
     ''Endpoint '' @ quoted name @ '' must have a validation check at the top.''"

definition missing_close_message :: "string \<Rightarrow> string" where
  "missing_close_message name =
     ''Function '' @ quoted name @ '' must close DB sessions in a finally block.''"

definition missing_rollback_message :: "string \<Rightarrow> string" where
  "missing_rollback_message name =
     ''Function '' @ quoted name @ '' does DB writes but is missing rollback in except block.''"

subsection \<open>check_function_names\<close>

fun function_name_step :: "node \<Rightarrow> reviewer \<Rightarrow> reviewer" where
  \<comment> \<open>the body of the loop over the walk\<close>
  "function_name_step (S (FunctionDef name args body decorator_list returns lineno end_lineno)) r =
     (if \<not> is_snake_case name then append_issue (function_name_message name) r else r)"
| "function_name_step n r = r"

definition check_function_names :: "reviewer \<Rightarrow> reviewer" where
  "check_function_names r = fold function_name_step (walk (M (tree r))) r"

subsection \<open>check_variable_names\<close>

fun target_step :: "expr \<Rightarrow> reviewer \<Rightarrow> reviewer" where
  \<comment> \<open>the body of the loop over \<open>node.targets\<close>\<close>
  "target_step (Name i) r =
     (if \<not> is_snake_case i then append_issue (variable_name_message i) r else r)"
| "target_step t r = r"

fun variable_name_step :: "node \<Rightarrow> reviewer \<Rightarrow> reviewer" where
  "variable_name_step (S (Assign targets v)) r = fold target_step targets r"
| "variable_name_step n r = r"

definition check_variable_names :: "reviewer \<Rightarrow> reviewer" where
  "check_variable_names r = fold variable_name_step (walk (M (tree r))) r"

subsection \<open>check_endpoint_rules\<close>

fun is_route_decorator :: "expr \<Rightarrow> bool" where
  \<comment> \<open>a Call whose \<open>func\<close> has an \<open>attr\<close> (only Attribute nodes do) equal to "route"\<close>
  "is_route_decorator (Call (Attribute v a) as ks) = (a = ''route'')"
| "is_route_decorator dec = False"

fun is_Try :: "node \<Rightarrow> bool" where
  "is_Try (S (Try body handlers orelse finalbody)) = True"
| "is_Try n = False"

fun is_json_call :: "node \<Rightarrow> bool" where
  \<comment> \<open>a Call whose \<open>func\<close> has an \<open>id\<close> (only Name nodes do) among "json", "jsonify"\<close>
  "is_json_call (E (Call (Name i) as ks)) = (i \<in> set [''json'', ''jsonify''])"
| "is_json_call n = False"

fun is_If :: "stmt \<Rightarrow> bool" where
  "is_If (If test body orelse) = True"
| "is_If s = False"

fun endpoint_step :: "node \<Rightarrow> reviewer \<Rightarrow> reviewer" where
  "endpoint_step (S (FunctionDef name args body decorator_list returns lineno end_lineno)) r =
     (let node = S (FunctionDef name args body decorator_list returns lineno end_lineno);
          has_route = list_ex is_route_decorator decorator_list
      in if has_route then
           let has_try = list_ex is_Try (walk node);
               r1 = (if \<not> has_try then append_issue (missing_try_message name) r else r);
               has_json_return = list_ex is_json_call (walk node);
               r2 = (if \<not> has_json_return then append_issue (missing_json_message name) r1
                     else r1);
               first_stmt = (case body of [] \<Rightarrow> None | s # rest \<Rightarrow> Some s)
           in (case first_stmt of
                 None \<Rightarrow> r2
               | Some s \<Rightarrow>
                   if \<not> is_If s then append_issue (missing_validation_message name) r2 else r2)
         else r)"
| "endpoint_step n r = r"

definition check_endpoint_rules :: "reviewer \<Rightarrow> reviewer" where
  "check_endpoint_rules r = fold endpoint_step (walk (M (tree r))) r"

subsection \<open>check_db_session_rules\<close>

definition func_code_of :: "string list \<Rightarrow> int \<Rightarrow> int \<Rightarrow> string" where
  \<comment> \<open>the lines \<open>code_lines[node.lineno - 1 : node.end_lineno]\<close> joined by a newline\<close>
  "func_code_of code_lines lineno end_lineno = join [newline] (slice code_lines (lineno - 1) end_lineno)"

fun db_session_step :: "string list \<Rightarrow> node \<Rightarrow> reviewer \<Rightarrow> reviewer" where
  "db_session_step code_lines
       (S (FunctionDef name args body decorator_list returns lineno end_lineno)) r =
     (let func_code = func_code_of code_lines lineno end_lineno
      in if contains ''getDbSession'' func_code \<or> contains ''create_dbsession_pg'' func_code then
           let r1 = (if \<not> contains ''finally'' func_code \<or> \<not> contains ''.close()'' func_code
                     then append_issue (missing_close_message name) r else r)
           in if list_ex (\<lambda>keyword. contains keyword func_code) [''add'', ''update'', ''insert'']
              then
                if \<not> contains ''except'' func_code \<or> \<not> contains ''.rollback()'' func_code
                then append_issue (missing_rollback_message name) r1 else r1
              else r1
         else r)"
| "db_session_step code_lines n r = r"

definition check_db_session_rules :: "reviewer \<Rightarrow> reviewer" where
  "check_db_session_rules r =
     (let code_lines = splitlines (code r)
      in fold (db_session_step code_lines) (walk (M (tree r))) r)"

subsection \<open>run_checks\<close>

definition run_checks :: "reviewer \<Rightarrow> string list \<times> reviewer" where
  \<comment> \<open>the returned list and the reviewer after the call\<close>
  "run_checks r =
     (let r1 = check_function_names r;
          r2 = check_variable_names r1;
          r3 = check_endpoint_rules r2;
          r4 = check_db_session_rules r3
      in (issues r4, r4))"

section \<open>Notions used to state the properties\<close>

text \<open>
  \<open>emitted f r\<close>: the issues that the operation \<open>f\<close> adds when it runs on the reviewer
  \<open>r\<close>, observed by running it with an empty accumulator.
\<close>

definition emitted :: "(reviewer \<Rightarrow> reviewer) \<Rightarrow> reviewer \<Rightarrow> string list" where
  "emitted f r = issues (f (r\<lparr>issues := []\<rparr>))"

text \<open>
  A node satisfying \<open>P\<close> occurs in a subtree: the root or a node anywhere below it, by
  recursion over the tree.
\<close>

fun occurs_expr :: "(node \<Rightarrow> bool) \<Rightarrow> expr \<Rightarrow> bool" where
  "occurs_expr P (Name i) = P (E (Name i))"
| "occurs_expr P (Attribute v a) = (P (E (Attribute v a)) \<or> occurs_expr P v)"
| "occurs_expr P (Call f as ks) =
     (P (E (Call f as ks)) \<or> occurs_expr P f \<or> list_ex (occurs_expr P) as
      \<or> list_ex (occurs_expr P) ks)"
| "occurs_expr P (Tuple es) = (P (E (Tuple es)) \<or> list_ex (occurs_expr P) es)"
| "occurs_expr P (ListExpr es) = (P (E (ListExpr es)) \<or> list_ex (occurs_expr P) es)"
| "occurs_expr P (OtherExpr es) = (P (E (OtherExpr es)) \<or> list_ex (occurs_expr P) es)"

fun occurs_stmt :: "(node \<Rightarrow> bool) \<Rightarrow> stmt \<Rightarrow> bool" where
  "occurs_stmt P (FunctionDef name args body decorator_list returns lineno end_lineno) =
     (P (S (FunctionDef name args body decorator_list returns lineno end_lineno))
      \<or> occurs_expr P args \<or> list_ex (occurs_stmt P) body
      \<or> list_ex (occurs_expr P) decorator_list \<or> list_ex (occurs_expr P) returns)"
| "occurs_stmt P (Assign targets v) =
     (P (S (Assign targets v)) \<or> list_ex (occurs_expr P) targets \<or> occurs_expr P v)"
| "occurs_stmt P (If test body orelse) =
     (P (S (If test body orelse)) \<or> occurs_expr P test \<or> list_ex (occurs_stmt P) body
      \<or> list_ex (occurs_stmt P) orelse)"
| "occurs_stmt P (Try body handlers orelse finalbody) =
     (P (S (Try body handlers orelse finalbody)) \<or> list_ex (occurs_stmt P) body
      \<or> list_ex (occurs_stmt P) handlers \<or> list_ex (occurs_stmt P) orelse
      \<or> list_ex (occurs_stmt P) finalbody)"
| "occurs_stmt P (OtherStmt es ss) =
     (P (S (OtherStmt es ss)) \<or> list_ex (occurs_expr P) es \<or> list_ex (occurs_stmt P) ss)"

fun occurs :: "(node \<Rightarrow> bool) \<Rightarrow> node \<Rightarrow> bool" where
  "occurs P (M (Module body)) = (P (M (Module body)) \<or> list_ex (occurs_stmt P) body)"
| "occurs P (S s) = occurs_stmt P s"
| "occurs P (E e) = occurs_expr P e"

text \<open>The kinds of node that the claims name.\<close>

fun is_Name :: "expr \<Rightarrow> bool" where
  "is_Name (Name i) = True"
| "is_Name t = False"

fun first_is_If :: "stmt list \<Rightarrow> bool" where
  \<comment> \<open>the body has a first statement and it is an If\<close>
  "first_is_If [] = False"
| "first_is_If (s # rest) = is_If s"

fun is_FunctionDef :: "node \<Rightarrow> bool" where
  "is_FunctionDef (S (FunctionDef name args body decs rets l e)) = True"
| "is_FunctionDef n = False"

text \<open>
  The number of endpoint conditions that a node fails: for a function with a route
  decorator, one for no Try in the body subtree, one for no json or jsonify call in the
  subtree of the function node, one for a first statement that is not an If. Any other
  node fails none.
\<close>

fun failed_conditions :: "node \<Rightarrow> nat" where
  "failed_conditions (S (FunctionDef name args body decs rets l e)) =
     (if list_ex is_route_decorator decs then
        (if list_ex (occurs_stmt is_Try) body then 0 else 1)
        + (if occurs is_json_call (S (FunctionDef name args body decs rets l e)) then 0 else 1)
        + (if body \<noteq> [] \<and> \<not> first_is_If body then 1 else 0)
      else 0)"
| "failed_conditions n = 0"

text \<open>The naming messages as the specification words them, the name in single quotes.\<close>

definition apostrophe :: char where
  "apostrophe = CHR 0x27"

definition spec_function_name_message :: "string \<Rightarrow> string" where
  "spec_function_name_message name =
     ''Function name '' @ [apostrophe] @ name @ [apostrophe] @ '' must be lower_snake_case.''"

definition spec_variable_name_message :: "string \<Rightarrow> string" where
  "spec_variable_name_message name =
     ''Variable name '' @ [apostrophe] @ name @ [apostrophe] @ '' must be lower_snake_case.''"

subsection \<open>Example inputs\<close>

text \<open>The file \<open>def FooBar():\<close> / \<open>BadVar = 1\<close> and its tree.\<close>

definition foobar_code :: string where
  "foobar_code = ''def FooBar():'' @ [newline] @ ''    BadVar = 1''"

definition foobar_tree :: module where
  "foobar_tree =
     Module [FunctionDef ''FooBar'' (OtherExpr []) [Assign [Name ''BadVar''] (OtherExpr [])]
               [] [] 1 2]"

text \<open>The decorator \<open>@app.route("/x")\<close>; the argument is a constant.\<close>

definition route_decorator :: expr where
  "route_decorator = Call (Attribute (Name ''app'') ''route'') [OtherExpr []] []"



text \<open>
  The file \<open>@app.route("/x")\<close> / \<open>def view():\<close> / \<open>x = 1\<close>; the \<open>def\<close> is on
  line 2.
\<close>

definition route_line :: string where
  "route_line = ''@app.route('' @ [CHR 0x22] @ ''/x'' @ [CHR 0x22] @ '')''"

definition view_code :: string where
  "view_code = route_line @ [newline] @ ''def view():'' @ [newline] @ ''    x = 1''"

definition view_tree :: module where
  "view_tree =
     Module [FunctionDef ''view'' (OtherExpr []) [Assign [Name ''x''] (OtherExpr [])]
               [route_decorator] [] 2 3]"

text \<open>
  The file \<open>@app.route("/x")\<close> / \<open>def h():\<close> / \<open>if ok:\<close> / \<open>try:\<close> /
  \<open>return jsonify(x)\<close> / \<open>finally:\<close> / \<open>pass\<close>.
\<close>

definition guarded_code :: string where
  "guarded_code =
     route_line @ [newline] @
     ''def h():'' @ [newline] @
     ''    if ok:'' @ [newline] @
     ''        try:'' @ [newline] @
     ''            return jsonify(x)'' @ [newline] @
     ''        finally:'' @ [newline] @
     ''            pass''"

definition guarded_tree :: module where
  "guarded_tree =
     Module [FunctionDef ''h'' (OtherExpr [])
               [If (Name ''ok'')
                  [Try [OtherStmt [Call (Name ''jsonify'') [Name ''x''] []] []] [] []
                     [OtherStmt [] []]] []]
               [route_decorator] [] 2 7]"

text \<open>
  The file \<open>@app.route(jsonify())\<close> / \<open>def f():\<close> / \<open>x = 1\<close>: a jsonify call in the
  decorator, none in the body.
\<close>

definition decorated_code :: string where
  "decorated_code =
     ''@app.route(jsonify())'' @ [newline] @ ''def f():'' @ [newline] @ ''    x = 1''"

definition decorated_tree :: module where
  "decorated_tree =
     Module [FunctionDef ''f'' (OtherExpr []) [Assign [Name ''x''] (OtherExpr [])]
               [Call (Attribute (Name ''app'') ''route'') [Call (Name ''jsonify'') [] []] []]
               [] 2 3]"





section \<open>Appending steps and the walk\<close>

text \<open>
  Every loop body only appends to the accumulator; a loop of such bodies appends the
  concatenation of what each body emits. A node occurs in the walk of a subtree exactly
  when it occurs in the subtree.
\<close>

lemma emitted_issues_irrelevant: "emitted f (r\<lparr>issues := xs\<rparr>) = emitted f r"
  by (simp add: emitted_def)

lemma append_issue_appends:
  "append_issue msg r = r\<lparr>issues := issues r @ emitted (append_issue msg) r\<rparr>"
  by (simp add: append_issue_def emitted_def)

lemma emitted_append_issue: "emitted (append_issue msg) r = [msg]"
  by (simp add: append_issue_def emitted_def)

lemma emitted_id: "emitted (\<lambda>r. r) r = []"
  by (simp add: emitted_def)

lemma fold_appends:
  assumes step: "\<And>n r. step n r = r\<lparr>issues := issues r @ emitted (step n) r\<rparr>"
  shows "fold step ns r = r\<lparr>issues := issues r @ concat (map (\<lambda>n. emitted (step n) r) ns)\<rparr>"
proof (induction ns arbitrary: r)
  case Nil
  show ?case by simp
next
  case (Cons n ns)
  have "fold step (n # ns) r = fold step ns (step n r)" by simp
  also have "\<dots> = (step n r)\<lparr>issues := issues (step n r)
                 @ concat (map (\<lambda>m. emitted (step m) (step n r)) ns)\<rparr>"
    by (rule Cons.IH)
  also have "step n r = r\<lparr>issues := issues r @ emitted (step n) r\<rparr>" by (rule step)
  finally show ?case by (simp add: emitted_issues_irrelevant)
qed

lemma emitted_fold:
  assumes step: "\<And>n r. step n r = r\<lparr>issues := issues r @ emitted (step n) r\<rparr>"
  shows "emitted (fold step ns) r = concat (map (\<lambda>n. emitted (step n) r) ns)"
  unfolding emitted_def [of "fold step ns"]
  by (subst fold_appends [of step, OF step]) (simp add: emitted_issues_irrelevant)

lemma function_name_step_appends:
  "function_name_step n r = r\<lparr>issues := issues r @ emitted (function_name_step n) r\<rparr>"
  by (cases "(n, r)" rule: function_name_step.cases) (simp_all add: emitted_def append_issue_def)

lemma target_step_appends:
  "target_step t r = r\<lparr>issues := issues r @ emitted (target_step t) r\<rparr>"
  by (cases "(t, r)" rule: target_step.cases) (simp_all add: emitted_def append_issue_def)

lemma emitted_variable_name_step_Assign:
  "emitted (variable_name_step (S (Assign targets v))) r
   = concat (map (\<lambda>t. emitted (target_step t) r) targets)"
proof -
  have "emitted (variable_name_step (S (Assign targets v))) r = emitted (fold target_step targets) r"
    by (simp add: emitted_def)
  then show ?thesis by (simp add: emitted_fold [of target_step, OF target_step_appends])
qed

lemma variable_name_step_appends:
  "variable_name_step n r = r\<lparr>issues := issues r @ emitted (variable_name_step n) r\<rparr>"
proof (cases "(n, r)" rule: variable_name_step.cases)
  case (1 targets v r')
  then show ?thesis
    using fold_appends [of target_step targets r, OF target_step_appends]
    by (simp add: emitted_variable_name_step_Assign)
qed (simp_all add: emitted_def)

lemma endpoint_step_appends:
  "endpoint_step n r = r\<lparr>issues := issues r @ emitted (endpoint_step n) r\<rparr>"
  by (cases "(n, r)" rule: endpoint_step.cases)
     (simp_all add: emitted_def append_issue_def Let_def split: list.splits)

lemma db_session_step_appends:
  "db_session_step ls n r = r\<lparr>issues := issues r @ emitted (db_session_step ls n) r\<rparr>"
  by (cases "(ls, n, r)" rule: db_session_step.cases)
     (simp_all add: emitted_def append_issue_def Let_def)

lemma list_ex_occurs_S: "list_ex (occurs P) (map S ss) = list_ex (occurs_stmt P) ss"
  by (induction ss) simp_all

lemma list_ex_occurs_E: "list_ex (occurs P) (map E es) = list_ex (occurs_expr P) es"
  by (induction es) simp_all

lemma occurs_children: "occurs P n = (P n \<or> list_ex (occurs P) (iter_child_nodes n))"
proof (cases n)
  case (M m)
  then show ?thesis by (cases m) (simp add: list_ex_occurs_S)
next
  case (S s)
  then show ?thesis by (cases s) (auto simp: list_ex_occurs_S list_ex_occurs_E)
next
  case (E e)
  then show ?thesis by (cases e) (auto simp: list_ex_occurs_E)
qed

lemma list_ex_walk_queue: "list_ex P (walk_queue q) = list_ex (occurs P) q"
proof (induction q rule: walk_queue.induct)
  case 1
  show ?case by simp
next
  case (2 n todo)
  have "list_ex P (walk_queue (n # todo)) = (P n \<or> list_ex P (walk_queue (todo @ iter_child_nodes n)))"
    by simp
  also have "\<dots> = (P n \<or> list_ex (occurs P) todo \<or> list_ex (occurs P) (iter_child_nodes n))"
    by (simp add: "2.IH")
  also have "\<dots> = (occurs P n \<or> list_ex (occurs P) todo)"
    using occurs_children [of P n] by blast
  finally show ?case by (simp only: list_ex_Cons_iff)
qed

lemma list_ex_walk: "list_ex P (walk n) = occurs P n"
  unfolding walk_def by (simp only: list_ex_walk_queue list_ex_Cons_iff list_ex_Nil_iff simp_thms)

lemma no_Try_in_expr: "\<not> occurs_expr is_Try e"
  by (induction e) (simp_all add: list_ex_iff)

lemma no_Try_in_exprs: "\<not> list_ex (occurs_expr is_Try) es"
  by (simp add: list_ex_iff no_Try_in_expr)

lemma emitted_function_name_step:
  "emitted (function_name_step n) r =
     (case n of S (FunctionDef name args body decs rets l e) \<Rightarrow>
        if is_snake_case name then [] else [function_name_message name] | _ \<Rightarrow> [])"
  by (cases "(n, r)" rule: function_name_step.cases) (simp_all add: emitted_def append_issue_def)

lemma emitted_target_step:
  "emitted (target_step t) r =
     (case t of Name i \<Rightarrow> if is_snake_case i then [] else [variable_name_message i] | _ \<Rightarrow> [])"
  by (cases "(t, r)" rule: target_step.cases) (simp_all add: emitted_def append_issue_def)

lemma emitted_variable_name_step_other:
  "(\<And>targets v. n \<noteq> S (Assign targets v)) \<Longrightarrow> emitted (variable_name_step n) r = []"
  by (cases "(n, r)" rule: variable_name_step.cases) (simp_all add: emitted_def)

lemma emitted_endpoint_step:
  "emitted (endpoint_step (S (FunctionDef name args body decs rets l e))) r =
     (if list_ex is_route_decorator decs then
        (if occurs is_Try (S (FunctionDef name args body decs rets l e)) then []
         else [missing_try_message name])
        @ (if occurs is_json_call (S (FunctionDef name args body decs rets l e)) then []
           else [missing_json_message name])
        @ (case body of [] \<Rightarrow> []
           | s # rest \<Rightarrow> if is_If s then [] else [missing_validation_message name])
      else [])"
  unfolding emitted_def endpoint_step.simps Let_def list_ex_walk
  by (simp add: append_issue_def split: list.splits)


lemma occurs_FunctionDef_Try:
  "occurs is_Try (S (FunctionDef name args body decs rets l e)) = list_ex (occurs_stmt is_Try) body"
  by (simp add: no_Try_in_expr no_Try_in_exprs)

lemma occurs_FunctionDef_json:
  "occurs is_json_call (S (FunctionDef name args body decs rets l e))
   = (occurs_expr is_json_call args \<or> list_ex (occurs_stmt is_json_call) body
      \<or> list_ex (occurs_expr is_json_call) decs \<or> list_ex (occurs_expr is_json_call) rets)"
  by simp

lemma endpoint_messages_distinct:
  "missing_try_message n \<noteq> missing_json_message n"
  "missing_try_message n \<noteq> missing_validation_message n"
  "missing_json_message n \<noteq> missing_validation_message n"
  "missing_json_message n \<noteq> missing_try_message n"
  "missing_validation_message n \<noteq> missing_try_message n"
  "missing_validation_message n \<noteq> missing_json_message n"
  by (simp_all add: missing_try_message_def missing_json_message_def
      missing_validation_message_def quoted_def)


subsection \<open>The four checks and the driver\<close>

lemma emitted_check_function_names:
  "emitted check_function_names r
   = concat (map (\<lambda>n. emitted (function_name_step n) r) (walk (M (tree r))))"
  by (simp add: emitted_def check_function_names_def
      fold_appends [of function_name_step, OF function_name_step_appends]
      emitted_issues_irrelevant)

lemma emitted_check_variable_names:
  "emitted check_variable_names r
   = concat (map (\<lambda>n. emitted (variable_name_step n) r) (walk (M (tree r))))"
  by (simp add: emitted_def check_variable_names_def
      fold_appends [of variable_name_step, OF variable_name_step_appends]
      emitted_issues_irrelevant)

lemma emitted_check_endpoint_rules:
  "emitted check_endpoint_rules r
   = concat (map (\<lambda>n. emitted (endpoint_step n) r) (walk (M (tree r))))"
  by (simp add: emitted_def check_endpoint_rules_def
      fold_appends [of endpoint_step, OF endpoint_step_appends]
      emitted_issues_irrelevant)


lemma endpoint_step_emits_at_FunctionDef:
  "msg \<in> set (emitted (endpoint_step n) r) \<Longrightarrow>
     \<exists>name args body decs rets l e. n = S (FunctionDef name args body decs rets l e)"
  by (cases "(n, r)" rule: endpoint_step.cases) (simp_all add: emitted_def)


lemma endpoint_messages_inject:
  "(missing_try_message a = missing_try_message b) = (a = b)"
  "(missing_json_message a = missing_json_message b) = (a = b)"
  "(missing_validation_message a = missing_validation_message b) = (a = b)"
  by (simp_all add: missing_try_message_def missing_json_message_def
      missing_validation_message_def quoted_def)


lemma endpoint_message_ends:
  "missing_try_message a = (''Endpoint '' @ quoted a @ '' missing try/except bl'') @ ''ock.''"
  "missing_json_message a = (''Endpoint '' @ quoted a @ '' must return a JSON respo'') @ ''nse.''"
  "missing_validation_message a
     = (''Endpoint '' @ quoted a @ '' must have a validation check at the '') @ ''top.''"
  by (simp_all add: missing_try_message_def missing_json_message_def
      missing_validation_message_def)

lemma endpoint_messages_apart:
  "missing_try_message a \<noteq> missing_json_message b"
  "missing_try_message a \<noteq> missing_validation_message b"
  "missing_json_message a \<noteq> missing_try_message b"
  "missing_json_message a \<noteq> missing_validation_message b"
  "missing_validation_message a \<noteq> missing_try_message b"
  "missing_validation_message a \<noteq> missing_json_message b"
  unfolding endpoint_message_ends
  by (simp_all only: append_eq_append_conv [OF disjI2] list.size) simp_all



lemma check_function_names_appends:
  "check_function_names r = r\<lparr>issues := issues r @ emitted check_function_names r\<rparr>"
  by (simp add: check_function_names_def emitted_def
      fold_appends [of function_name_step, OF function_name_step_appends]
      emitted_issues_irrelevant)

lemma check_variable_names_appends:
  "check_variable_names r = r\<lparr>issues := issues r @ emitted check_variable_names r\<rparr>"
  by (simp add: check_variable_names_def emitted_def
      fold_appends [of variable_name_step, OF variable_name_step_appends]
      emitted_issues_irrelevant)

lemma check_endpoint_rules_appends:
  "check_endpoint_rules r = r\<lparr>issues := issues r @ emitted check_endpoint_rules r\<rparr>"
  by (simp add: check_endpoint_rules_def emitted_def
      fold_appends [of endpoint_step, OF endpoint_step_appends]
      emitted_issues_irrelevant)

lemma check_db_session_rules_appends:
  "check_db_session_rules r = r\<lparr>issues := issues r @ emitted check_db_session_rules r\<rparr>"
  by (simp add: check_db_session_rules_def emitted_def Let_def
      fold_appends [of "db_session_step ls" for ls, OF db_session_step_appends]
      emitted_issues_irrelevant)

lemma run_checks_appends:
  "snd (run_checks r) =
     r\<lparr>issues := issues r @ emitted check_function_names r @ emitted check_variable_names r
            @ emitted check_endpoint_rules r @ emitted check_db_session_rules r\<rparr>"
proof -
  let ?r1 = "check_function_names r"
  let ?r2 = "check_variable_names ?r1"
  let ?r3 = "check_endpoint_rules ?r2"
  let ?r4 = "check_db_session_rules ?r3"
  have 1: "?r1 = r\<lparr>issues := issues r @ emitted check_function_names r\<rparr>"
    by (rule check_function_names_appends)
  have 2: "?r2 = r\<lparr>issues := issues r @ emitted check_function_names r
                  @ emitted check_variable_names r\<rparr>"
    by (subst check_variable_names_appends) (simp add: 1 emitted_issues_irrelevant)
  have 3: "?r3 = r\<lparr>issues := issues r @ emitted check_function_names r
                  @ emitted check_variable_names r @ emitted check_endpoint_rules r\<rparr>"
    by (subst check_endpoint_rules_appends) (simp add: 2 emitted_issues_irrelevant)
  have 4: "?r4 = r\<lparr>issues := issues r @ emitted check_function_names r
                  @ emitted check_variable_names r @ emitted check_endpoint_rules r
                  @ emitted check_db_session_rules r\<rparr>"
    by (subst check_db_session_rules_appends) (simp add: 3 emitted_issues_irrelevant)
  show ?thesis by (simp add: run_checks_def Let_def 4)
qed

lemma run_checks_returns: "fst (run_checks r) = issues (snd (run_checks r))"
  by (simp add: run_checks_def Let_def)

lemma issues_CodeReviewer: "issues (CodeReviewer c t) = []"
  by (simp add: CodeReviewer_def)

lemma issues_fresh: "issues (f (CodeReviewer c t)) = emitted f (CodeReviewer c t)"
  by (simp add: emitted_def CodeReviewer_def)

subsection \<open>The endpoint check over the tree\<close>


lemma try_in_step:
  "(missing_try_message nm
      \<in> set (emitted (endpoint_step (S (FunctionDef name args body decs rets l e))) r))
   = (nm = name \<and> list_ex is_route_decorator decs
      \<and> \<not> occurs is_Try (S (FunctionDef name args body decs rets l e)))"
  by (cases body)
     (auto simp: emitted_endpoint_step endpoint_messages_apart endpoint_messages_inject
        simp del: occurs.simps occurs_stmt.simps)

lemma json_in_step:
  "(missing_json_message nm
      \<in> set (emitted (endpoint_step (S (FunctionDef name args body decs rets l e))) r))
   = (nm = name \<and> list_ex is_route_decorator decs
      \<and> \<not> occurs is_json_call (S (FunctionDef name args body decs rets l e)))"
  by (cases body)
     (auto simp: emitted_endpoint_step endpoint_messages_apart endpoint_messages_inject
        simp del: occurs.simps occurs_stmt.simps)

lemma in_emitted_check_endpoint_rules:
  "(msg \<in> set (emitted check_endpoint_rules r))
   = (\<exists>name args body decs rets l e.
        S (FunctionDef name args body decs rets l e) \<in> set (walk (M (tree r)))
        \<and> msg \<in> set (emitted (endpoint_step (S (FunctionDef name args body decs rets l e))) r))"
proof
  assume "msg \<in> set (emitted check_endpoint_rules r)"
  then obtain n where n: "n \<in> set (walk (M (tree r)))" "msg \<in> set (emitted (endpoint_step n) r)"
    by (auto simp: emitted_check_endpoint_rules)
  from endpoint_step_emits_at_FunctionDef [OF n(2)] n
  show "\<exists>name args body decs rets l e.
        S (FunctionDef name args body decs rets l e) \<in> set (walk (M (tree r)))
        \<and> msg \<in> set (emitted (endpoint_step (S (FunctionDef name args body decs rets l e))) r)"
    by blast
next
  assume "\<exists>name args body decs rets l e.
        S (FunctionDef name args body decs rets l e) \<in> set (walk (M (tree r)))
        \<and> msg \<in> set (emitted (endpoint_step (S (FunctionDef name args body decs rets l e))) r)"
  then show "msg \<in> set (emitted check_endpoint_rules r)"
    by (auto simp: emitted_check_endpoint_rules)
qed

lemma length_emitted_endpoint_step:
  "length (emitted (endpoint_step n) r) = failed_conditions n"
proof (cases "is_FunctionDef n")
  case False
  then have "emitted (endpoint_step n) r = []"
    by (cases "(n, r)" rule: endpoint_step.cases) (simp_all add: emitted_def)
  moreover from False have "failed_conditions n = 0"
    by (cases n rule: failed_conditions.cases) simp_all
  ultimately show ?thesis by simp
next
  case True
  then obtain name args body decs rets l e
    where n: "n = S (FunctionDef name args body decs rets l e)"
    by (cases n rule: is_FunctionDef.cases) simp_all
  show ?thesis
    unfolding n
    by (cases body)
       (simp_all add: emitted_endpoint_step occurs_FunctionDef_Try
          del: occurs.simps occurs_stmt.simps)
qed

lemma length_emitted_check_endpoint_rules:
  "length (emitted check_endpoint_rules r) = sum_list (map failed_conditions (walk (M (tree r))))"
  by (simp add: emitted_check_endpoint_rules length_concat comp_def length_emitted_endpoint_step)

lemma no_FunctionDef_in_expr: "\<not> occurs_expr is_FunctionDef e"
  by (induction e) (simp_all add: list_ex_iff)

lemma no_FunctionDef_in_exprs: "\<not> list_ex (occurs_expr is_FunctionDef) es"
  by (simp add: list_ex_iff no_FunctionDef_in_expr)

lemma endpoint_step_silent: "\<not> is_FunctionDef n \<Longrightarrow> emitted (endpoint_step n) r = []"
  by (cases "(n, r)" rule: endpoint_step.cases) (simp_all add: emitted_def)

lemma endpoint_walk_silent:
  assumes "\<not> list_ex (occurs is_FunctionDef) q"
  shows "concat (map (\<lambda>n. emitted (endpoint_step n) r) (walk_queue q)) = []"
proof -
  from assms have "\<not> list_ex is_FunctionDef (walk_queue q)"
    using list_ex_walk_queue [of is_FunctionDef q] by blast
  then have "\<forall>n \<in> set (walk_queue q). emitted (endpoint_step n) r = []"
    by (auto simp: list_ex_iff endpoint_step_silent)
  then show ?thesis by simp
qed

lemma walk_single_function:
  "walk (M (Module [f])) = M (Module [f]) # S f # walk_queue (iter_child_nodes (S f))"
proof -
  have "walk_queue [M (Module [f])] = M (Module [f]) # walk_queue [S f]"
    by (simp add: walk_queue.simps(2) [of "M (Module [f])" "[]"] del: walk_queue.simps)
  moreover have "walk_queue [S f] = S f # walk_queue (iter_child_nodes (S f))"
    by (simp add: walk_queue.simps(2) [of "S f" "[]"] del: walk_queue.simps iter_child_nodes.simps)
  ultimately show ?thesis by (simp only: walk_def)
qed

lemma single_assignment_module:
  assumes t: "tree r = Module [FunctionDef name args [Assign targets v] decs rets l e]"
  shows "emitted check_endpoint_rules r
         = emitted (endpoint_step (S (FunctionDef name args [Assign targets v] decs rets l e))) r"
proof -
  let ?f = "FunctionDef name args [Assign targets v] decs rets l e"
  have "\<not> list_ex (occurs is_FunctionDef) (iter_child_nodes (S ?f))"
    by (simp add: list_ex_occurs_E no_FunctionDef_in_expr no_FunctionDef_in_exprs)
  then have "concat (map (\<lambda>n. emitted (endpoint_step n) r)
               (walk_queue (iter_child_nodes (S ?f)))) = []"
    by (rule endpoint_walk_silent)
  moreover have "emitted (endpoint_step (M (Module [?f]))) r = []"
    by (simp add: endpoint_step_silent)
  ultimately show ?thesis
    by (simp only: emitted_check_endpoint_rules t walk_single_function
        list.map concat.simps append_Nil append_Nil2)
qed

subsection \<open>The session check over the tree\<close>










section \<open>The identifier classifier\<close>

lemma newline_not_tail_class: "\<not> tail_class newline"
  by (simp add: tail_class_def is_lower_def is_digit_def is_underscore_def newline_def)

lemma match_tail_iff:
  "match_tail cs \<longleftrightarrow> list_all tail_class cs \<or> (\<exists>t. cs = t @ [newline] \<and> list_all tail_class t)"
proof (induction cs)
  case Nil
  then show ?case by (simp add: at_dollar_def)
next
  case (Cons c cs)
  show ?case
  proof (cases "tail_class c")
    case True
    then have "c \<noteq> newline" using newline_not_tail_class by auto
    then have nd: "\<not> at_dollar (c # cs)" by (simp add: at_dollar_def)
    have "(\<exists>t. c # cs = t @ [newline] \<and> list_all tail_class t)
          \<longleftrightarrow> (\<exists>t. cs = t @ [newline] \<and> list_all tail_class t)"
    proof
      assume "\<exists>t. c # cs = t @ [newline] \<and> list_all tail_class t"
      then obtain t where t: "c # cs = t @ [newline]" "list_all tail_class t" by blast
      with \<open>c \<noteq> newline\<close> obtain t' where "t = c # t'" by (cases t) auto
      with t show "\<exists>t. cs = t @ [newline] \<and> list_all tail_class t" by auto
    next
      assume "\<exists>t. cs = t @ [newline] \<and> list_all tail_class t"
      then obtain t where "cs = t @ [newline]" "list_all tail_class t" by blast
      with True have "c # cs = (c # t) @ [newline] \<and> list_all tail_class (c # t)" by simp
      then show "\<exists>t. c # cs = t @ [newline] \<and> list_all tail_class t" by blast
    qed
    with True nd Cons.IH show ?thesis by simp
  next
    case False
    have "(\<exists>t. c # cs = t @ [newline] \<and> list_all tail_class t) \<longleftrightarrow> c # cs = [newline]"
    proof
      assume "\<exists>t. c # cs = t @ [newline] \<and> list_all tail_class t"
      then obtain t where t: "c # cs = t @ [newline]" "list_all tail_class t" by blast
      with False have "t = []" by (cases t) auto
      with t show "c # cs = [newline]" by simp
    next
      assume "c # cs = [newline]"
      then have "c # cs = [] @ [newline] \<and> list_all tail_class []" by simp
      then show "\<exists>t. c # cs = t @ [newline] \<and> list_all tail_class t" by blast
    qed
    with False show ?thesis by (simp add: at_dollar_def)
  qed
qed

text \<open>
  What the classifier accepts: the strings of the specification's reading, and each of
  them followed by one newline.
\<close>

lemma is_snake_case_iff:
  "is_snake_case s \<longleftrightarrow> spec_lower_snake s \<or> (\<exists>t. s = t @ [newline] \<and> spec_lower_snake t)"
proof (cases s)
  case Nil
  then show ?thesis by (simp add: is_snake_case_def spec_lower_snake_def)
next
  case (Cons c cs)
  have "(\<exists>t. c # cs = t @ [newline] \<and> spec_lower_snake t)
        \<longleftrightarrow> head_class c \<and> (\<exists>t. cs = t @ [newline] \<and> list_all tail_class t)"
  proof
    assume "\<exists>t. c # cs = t @ [newline] \<and> spec_lower_snake t"
    then obtain t where t: "c # cs = t @ [newline]" "spec_lower_snake t" by blast
    then obtain t' where t': "t = c # t'" by (cases t) (auto simp: spec_lower_snake_def)
    with t show "head_class c \<and> (\<exists>t. cs = t @ [newline] \<and> list_all tail_class t)"
      by (auto simp: spec_lower_snake_def)
  next
    assume "head_class c \<and> (\<exists>t. cs = t @ [newline] \<and> list_all tail_class t)"
    then obtain t where "head_class c" "cs = t @ [newline]" "list_all tail_class t" by blast
    then have "c # cs = (c # t) @ [newline] \<and> spec_lower_snake (c # t)"
      by (simp add: spec_lower_snake_def)
    then show "\<exists>t. c # cs = t @ [newline] \<and> spec_lower_snake t" by blast
  qed
  with Cons show ?thesis
    by (auto simp: is_snake_case_def spec_lower_snake_def match_tail_iff)
qed

lemma is_snake_case_no_newline:
  "newline \<notin> set s \<Longrightarrow> is_snake_case s = spec_lower_snake s"
  by (auto simp: is_snake_case_iff)

text \<open>
  C3. The claim: \<open>is_snake_case\<close> accepts a string if and only if the string is
  non-empty, starts with a lowercase letter or underscore and continues with lowercase
  letters, digits and underscores only. The classifier run on the two-character string
  made of the letter a and a newline: it accepts the string, whose last character is none
  of the allowed ones.
\<close>

theorem is_snake_case_trailing_newline:
  "is_snake_case [CHR ''a'', newline] \<and> \<not> spec_lower_snake [CHR ''a'', newline]"
  by (simp add: is_snake_case_def spec_lower_snake_def head_class_def tail_class_def
      is_lower_def is_digit_def is_underscore_def at_dollar_def newline_def)

section \<open>The naming rule\<close>

lemma function_issue_shape:
  assumes "msg \<in> set (emitted check_function_names r)"
  shows "\<exists>name. \<not> is_snake_case name \<and> msg = function_name_message name"
proof -
  from assms obtain n where "msg \<in> set (emitted (function_name_step n) r)"
    by (auto simp: emitted_check_function_names)
  then show ?thesis
    by (auto simp: emitted_function_name_step split: node.splits stmt.splits if_splits)
qed

lemma variable_issue_shape:
  assumes "msg \<in> set (emitted check_variable_names r)"
  shows "\<exists>i. \<not> is_snake_case i \<and> msg = variable_name_message i"
proof -
  from assms obtain n where n: "msg \<in> set (emitted (variable_name_step n) r)"
    by (auto simp: emitted_check_variable_names)
  then obtain targets v where "n = S (Assign targets v)"
    using emitted_variable_name_step_other [of n r] by fastforce
  with n obtain t where "msg \<in> set (emitted (target_step t) r)"
    by (auto simp: emitted_variable_name_step_Assign)
  then show ?thesis
    by (auto simp: emitted_target_step split: expr.splits if_splits)
qed

text \<open>
  C1, as the code has it. A FunctionDef node emits, when its name fails the classifier,
  the one issue \<open>Function name `<name>` must be lower_snake_case.\<close>, and a Name target
  emits, when its identifier fails, the one issue
  \<open>Variable name `<name>` must be lower_snake_case.\<close>; the offending name stands between
  two backquotes. Every issue of the two naming checks has one of these two texts.
\<close>

theorem naming_messages:
  "emitted (function_name_step (S (FunctionDef name args body decs rets l e))) r
     = (if is_snake_case name then []
        else [''Function name `'' @ name @ ''` must be lower_snake_case.''])
   \<and> emitted (target_step (Name i)) r
     = (if is_snake_case i then []
        else [''Variable name `'' @ i @ ''` must be lower_snake_case.''])
   \<and> (\<forall>msg \<in> set (emitted check_function_names r).
         \<exists>name. \<not> is_snake_case name
           \<and> msg = ''Function name `'' @ name @ ''` must be lower_snake_case.'')
   \<and> (\<forall>msg \<in> set (emitted check_variable_names r).
         \<exists>i. \<not> is_snake_case i
           \<and> msg = ''Variable name `'' @ i @ ''` must be lower_snake_case.'')"
proof -
  have f: "function_name_message x = ''Function name `'' @ x @ ''` must be lower_snake_case.''" for x
    by (simp add: function_name_message_def quoted_def backquote_def)
  have v: "variable_name_message x = ''Variable name `'' @ x @ ''` must be lower_snake_case.''" for x
    by (simp add: variable_name_message_def quoted_def backquote_def)
  have 1: "emitted (function_name_step (S (FunctionDef name args body decs rets l e))) r
     = (if is_snake_case name then []
        else [''Function name `'' @ name @ ''` must be lower_snake_case.''])"
    by (simp add: emitted_function_name_step f)
  have 2: "emitted (target_step (Name i)) r
     = (if is_snake_case i then []
        else [''Variable name `'' @ i @ ''` must be lower_snake_case.''])"
    by (simp add: emitted_target_step v)
  have 3: "\<forall>msg \<in> set (emitted check_function_names r).
         \<exists>name. \<not> is_snake_case name
           \<and> msg = ''Function name `'' @ name @ ''` must be lower_snake_case.''"
    using function_issue_shape [of _ r] unfolding f by blast
  have 4: "\<forall>msg \<in> set (emitted check_variable_names r).
         \<exists>i. \<not> is_snake_case i
           \<and> msg = ''Variable name `'' @ i @ ''` must be lower_snake_case.''"
    using variable_issue_shape [of _ r] unfolding v by blast
  from 1 2 3 4 show ?thesis by blast
qed

text \<open>
  The statement at the FooBar file: the function name and the variable name both fail the
  classifier, and the two checks emit one issue each.
\<close>

theorem naming_messages_witness:
  "\<not> is_snake_case ''FooBar'' \<and> \<not> is_snake_case ''BadVar''
   \<and> emitted (function_name_step
        (S (FunctionDef ''FooBar'' (OtherExpr []) [Assign [Name ''BadVar''] (OtherExpr [])]
              [] [] 1 2)))
        (CodeReviewer foobar_code foobar_tree)
      = [''Function name `FooBar` must be lower_snake_case.'']
   \<and> emitted (target_step (Name ''BadVar'')) (CodeReviewer foobar_code foobar_tree)
      = [''Variable name `BadVar` must be lower_snake_case.'']
   \<and> emitted check_function_names (CodeReviewer foobar_code foobar_tree)
      = [''Function name `FooBar` must be lower_snake_case.'']
   \<and> emitted check_variable_names (CodeReviewer foobar_code foobar_tree)
      = [''Variable name `BadVar` must be lower_snake_case.'']"
proof -
  have a: "\<not> is_snake_case ''FooBar''" "\<not> is_snake_case ''BadVar''"
    by (simp_all add: is_snake_case_def head_class_def is_lower_def is_underscore_def)
  have b: "emitted check_function_names (CodeReviewer foobar_code foobar_tree)
      = [''Function name `FooBar` must be lower_snake_case.'']"
    by (simp add: emitted_def CodeReviewer_def foobar_tree_def check_function_names_def
        walk_def append_issue_def function_name_message_def quoted_def backquote_def a)
  have c: "emitted check_variable_names (CodeReviewer foobar_code foobar_tree)
      = [''Variable name `BadVar` must be lower_snake_case.'']"
    by (simp add: emitted_def CodeReviewer_def foobar_tree_def check_variable_names_def
        walk_def append_issue_def variable_name_message_def quoted_def backquote_def a)
  show ?thesis
    using naming_messages [of "''FooBar''" "OtherExpr []"
        "[Assign [Name ''BadVar''] (OtherExpr [])]" "[]" "[]" 1 2
        "CodeReviewer foobar_code foobar_tree" "''BadVar''"] a b c
    by simp
qed

text \<open>
  C1 as stated, with the name in single quotes, fails: the issue emitted for a function
  named FooBar is not the text \<open>Function name 'FooBar' must be lower_snake_case.\<close>
\<close>

theorem naming_messages_counterexample:
  "\<not> is_snake_case ''FooBar''
   \<and> emitted (function_name_step (S (FunctionDef ''FooBar'' (OtherExpr []) [] [] [] 1 1)))
       (CodeReviewer [] (Module []))
     \<noteq> [spec_function_name_message ''FooBar'']"
  by (simp add: emitted_def CodeReviewer_def append_issue_def function_name_message_def
      spec_function_name_message_def quoted_def backquote_def apostrophe_def
      is_snake_case_def head_class_def is_lower_def is_underscore_def)

text \<open>
  C7. A target of an Assign that is not a Name (a tuple, a list, an attribute, ...) emits
  no variable-naming issue, whatever identifiers occur inside it: the target emits
  nothing, and the issues of the Assign node are those of the node without that target.
\<close>

theorem non_name_targets_exempt:
  "\<not> is_Name t \<Longrightarrow>
     emitted (target_step t) r = []
     \<and> emitted (variable_name_step (S (Assign (ts1 @ t # ts2) v))) r
       = emitted (variable_name_step (S (Assign (ts1 @ ts2) v))) r"
  by (cases t) (simp_all add: emitted_variable_name_step_Assign emitted_target_step)

text \<open>
  The statement at \<open>(A, b) = (1, 2)\<close>: the tuple target emits nothing although A fails the
  classifier, and the whole check emits nothing on the file holding this one statement.
\<close>

theorem non_name_targets_exempt_witness:
  "\<not> is_Name (Tuple [Name ''A'', Name ''b'']) \<and> \<not> is_snake_case ''A''
   \<and> emitted (target_step (Tuple [Name ''A'', Name ''b''])) (CodeReviewer [] (Module [])) = []
   \<and> emitted (variable_name_step (S (Assign [Tuple [Name ''A'', Name ''b'']] (OtherExpr []))))
        (CodeReviewer [] (Module [])) = []
   \<and> emitted check_variable_names
        (CodeReviewer [] (Module [Assign [Tuple [Name ''A'', Name ''b'']] (OtherExpr [])])) = []"
proof -
  have a: "\<not> is_snake_case ''A''"
    by (simp add: is_snake_case_def head_class_def is_lower_def is_underscore_def)
  have b: "emitted check_variable_names
        (CodeReviewer [] (Module [Assign [Tuple [Name ''A'', Name ''b'']] (OtherExpr [])])) = []"
    by (simp add: emitted_def CodeReviewer_def check_variable_names_def walk_def)
  have c: "emitted (variable_name_step (S (Assign [] (OtherExpr []))))
        (CodeReviewer [] (Module [])) = []"
    by (simp add: emitted_def CodeReviewer_def)
  show ?thesis
    using non_name_targets_exempt [of "Tuple [Name ''A'', Name ''b'']"
        "CodeReviewer [] (Module [])" "[]" "[]" "OtherExpr []"] a b c
    by simp
qed

section \<open>The endpoint rule\<close>


lemma view_walk:
  "S (FunctionDef ''view'' (OtherExpr []) [Assign [Name ''x''] (OtherExpr [])]
        [route_decorator] [] 2 3)
   \<in> set (walk (M (tree (CodeReviewer view_code view_tree))))"
  by (simp add: CodeReviewer_def view_tree_def walk_def)

lemma view_run:
  "emitted check_endpoint_rules (CodeReviewer view_code view_tree)
   = [''Endpoint `view` missing try/except block.'',
      ''Endpoint `view` must return a JSON response.'',
      ''Endpoint `view` must have a validation check at the top.'']"
  by (simp add: emitted_def check_endpoint_rules_def CodeReviewer_def view_tree_def
      route_decorator_def walk_def append_issue_def missing_try_message_def
      missing_json_message_def missing_validation_message_def quoted_def backquote_def)

lemma guarded_run:
  "emitted check_endpoint_rules (CodeReviewer guarded_code guarded_tree) = []"
  by (simp add: emitted_def check_endpoint_rules_def CodeReviewer_def guarded_tree_def
      route_decorator_def walk_def append_issue_def)

lemma decorated_run:
  "emitted check_endpoint_rules (CodeReviewer decorated_code decorated_tree)
   = [''Endpoint `f` missing try/except block.'',
      ''Endpoint `f` must have a validation check at the top.'']"
  by (simp add: emitted_def check_endpoint_rules_def CodeReviewer_def decorated_tree_def
      walk_def append_issue_def missing_try_message_def
      missing_validation_message_def quoted_def backquote_def)



text \<open>
  C4, as the code has it. For an endpoint function the try/except issue is emitted if and
  only if no Try node occurs anywhere in the body subtree. The JSON issue is emitted if
  and only if no Call of the plain name json or jsonify occurs anywhere in the subtree of
  the FunctionDef node: its arguments, its body, its decorators and its return
  annotation. A call that occurs only in a decorator or in a default value satisfies the
  JSON check. Over the whole tree: the check emits either issue for a name exactly when
  the tree holds an endpoint function of that name with that lack.
\<close>

theorem endpoint_subtree_checks:
  "(list_ex is_route_decorator decs \<longrightarrow>
     ((missing_try_message name
         \<in> set (emitted (endpoint_step (S (FunctionDef name args body decs rets l e))) r))
       = (\<not> list_ex (occurs_stmt is_Try) body))
     \<and> ((missing_json_message name
         \<in> set (emitted (endpoint_step (S (FunctionDef name args body decs rets l e))) r))
       = (\<not> (occurs_expr is_json_call args \<or> list_ex (occurs_stmt is_json_call) body
             \<or> list_ex (occurs_expr is_json_call) decs
             \<or> list_ex (occurs_expr is_json_call) rets))))
   \<and> (missing_try_message name \<in> set (emitted check_endpoint_rules r))
     = (\<exists>args body decs rets l e.
          S (FunctionDef name args body decs rets l e) \<in> set (walk (M (tree r)))
          \<and> list_ex is_route_decorator decs \<and> \<not> list_ex (occurs_stmt is_Try) body)
   \<and> (missing_json_message name \<in> set (emitted check_endpoint_rules r))
     = (\<exists>args body decs rets l e.
          S (FunctionDef name args body decs rets l e) \<in> set (walk (M (tree r)))
          \<and> list_ex is_route_decorator decs
          \<and> \<not> (occurs_expr is_json_call args \<or> list_ex (occurs_stmt is_json_call) body
                \<or> list_ex (occurs_expr is_json_call) decs
                \<or> list_ex (occurs_expr is_json_call) rets))"
proof -
  have node: "list_ex is_route_decorator decs \<longrightarrow>
     ((missing_try_message name
         \<in> set (emitted (endpoint_step (S (FunctionDef name args body decs rets l e))) r))
       = (\<not> list_ex (occurs_stmt is_Try) body))
     \<and> ((missing_json_message name
         \<in> set (emitted (endpoint_step (S (FunctionDef name args body decs rets l e))) r))
       = (\<not> (occurs_expr is_json_call args \<or> list_ex (occurs_stmt is_json_call) body
             \<or> list_ex (occurs_expr is_json_call) decs
             \<or> list_ex (occurs_expr is_json_call) rets)))"
    by (simp only: try_in_step json_in_step occurs_FunctionDef_Try occurs_FunctionDef_json)
       blast
  have "(missing_try_message name \<in> set (emitted check_endpoint_rules r))
     = (\<exists>name' args body decs rets l e.
          S (FunctionDef name' args body decs rets l e) \<in> set (walk (M (tree r)))
          \<and> name = name' \<and> list_ex is_route_decorator decs
          \<and> \<not> list_ex (occurs_stmt is_Try) body)"
    by (simp only: in_emitted_check_endpoint_rules try_in_step occurs_FunctionDef_Try)
  also have "\<dots> = (\<exists>args body decs rets l e.
          S (FunctionDef name args body decs rets l e) \<in> set (walk (M (tree r)))
          \<and> list_ex is_route_decorator decs \<and> \<not> list_ex (occurs_stmt is_Try) body)"
    by blast
  finally have tr: "(missing_try_message name \<in> set (emitted check_endpoint_rules r))
     = (\<exists>args body decs rets l e.
          S (FunctionDef name args body decs rets l e) \<in> set (walk (M (tree r)))
          \<and> list_ex is_route_decorator decs \<and> \<not> list_ex (occurs_stmt is_Try) body)" .
  have "(missing_json_message name \<in> set (emitted check_endpoint_rules r))
     = (\<exists>name' args body decs rets l e.
          S (FunctionDef name' args body decs rets l e) \<in> set (walk (M (tree r)))
          \<and> name = name' \<and> list_ex is_route_decorator decs
          \<and> \<not> (occurs_expr is_json_call args \<or> list_ex (occurs_stmt is_json_call) body
                \<or> list_ex (occurs_expr is_json_call) decs
                \<or> list_ex (occurs_expr is_json_call) rets))"
    by (simp only: in_emitted_check_endpoint_rules json_in_step occurs_FunctionDef_json)
  also have "\<dots> = (\<exists>args body decs rets l e.
          S (FunctionDef name args body decs rets l e) \<in> set (walk (M (tree r)))
          \<and> list_ex is_route_decorator decs
          \<and> \<not> (occurs_expr is_json_call args \<or> list_ex (occurs_stmt is_json_call) body
                \<or> list_ex (occurs_expr is_json_call) decs
                \<or> list_ex (occurs_expr is_json_call) rets))"
    by blast
  finally have js: "(missing_json_message name \<in> set (emitted check_endpoint_rules r))
     = (\<exists>args body decs rets l e.
          S (FunctionDef name args body decs rets l e) \<in> set (walk (M (tree r)))
          \<and> list_ex is_route_decorator decs
          \<and> \<not> (occurs_expr is_json_call args \<or> list_ex (occurs_stmt is_json_call) body
                \<or> list_ex (occurs_expr is_json_call) decs
                \<or> list_ex (occurs_expr is_json_call) rets))" .
  from node tr js show ?thesis by blast
qed

text \<open>
  The statement run through \<open>check_endpoint_rules\<close> on two files. In the file of
  \<open>view\<close> the function is in the walk, there is no Try and no json or jsonify call, and
  the check emits both issues. In the file of \<open>h\<close> the Try and the jsonify call lie
  below the first statement, and the check emits nothing.
\<close>

theorem endpoint_subtree_checks_witness:
  "list_ex is_route_decorator [route_decorator]
   \<and> S (FunctionDef ''view'' (OtherExpr []) [Assign [Name ''x''] (OtherExpr [])]
          [route_decorator] [] 2 3)
       \<in> set (walk (M (tree (CodeReviewer view_code view_tree))))
   \<and> \<not> list_ex (occurs_stmt is_Try) [Assign [Name ''x''] (OtherExpr [])]
   \<and> \<not> list_ex (occurs_stmt is_json_call) [Assign [Name ''x''] (OtherExpr [])]
   \<and> \<not> list_ex (occurs_expr is_json_call) [route_decorator]
   \<and> missing_try_message ''view''
       \<in> set (emitted check_endpoint_rules (CodeReviewer view_code view_tree))
   \<and> missing_json_message ''view''
       \<in> set (emitted check_endpoint_rules (CodeReviewer view_code view_tree))
   \<and> missing_try_message ''view''
       \<in> set (emitted (endpoint_step
                 (S (FunctionDef ''view'' (OtherExpr []) [Assign [Name ''x''] (OtherExpr [])]
                      [route_decorator] [] 2 3)))
               (CodeReviewer view_code view_tree))
   \<and> missing_json_message ''view''
       \<in> set (emitted (endpoint_step
                 (S (FunctionDef ''view'' (OtherExpr []) [Assign [Name ''x''] (OtherExpr [])]
                      [route_decorator] [] 2 3)))
               (CodeReviewer view_code view_tree))
   \<and> missing_try_message ''h''
       \<notin> set (emitted check_endpoint_rules (CodeReviewer guarded_code guarded_tree))
   \<and> missing_json_message ''h''
       \<notin> set (emitted check_endpoint_rules (CodeReviewer guarded_code guarded_tree))
   \<and> emitted check_endpoint_rules (CodeReviewer guarded_code guarded_tree) = []"
proof -
  let ?R = "CodeReviewer view_code view_tree"
  have route: "list_ex is_route_decorator [route_decorator]"
    by (simp add: route_decorator_def)
  have body: "\<not> list_ex (occurs_stmt is_Try) [Assign [Name ''x''] (OtherExpr [])]"
      "\<not> list_ex (occurs_stmt is_json_call) [Assign [Name ''x''] (OtherExpr [])]"
      "\<not> list_ex (occurs_expr is_json_call) [route_decorator]"
    by (simp_all add: route_decorator_def)
  note inst = endpoint_subtree_checks [where decs = "[route_decorator]" and name = "''view''"
      and args = "OtherExpr []" and body = "[Assign [Name ''x''] (OtherExpr [])]"
      and rets = "[]" and l = 2 and e = 3 and r = ?R]
  have step: "missing_try_message ''view''
       \<in> set (emitted (endpoint_step
                 (S (FunctionDef ''view'' (OtherExpr []) [Assign [Name ''x''] (OtherExpr [])]
                      [route_decorator] [] 2 3))) ?R)"
      "missing_json_message ''view''
       \<in> set (emitted (endpoint_step
                 (S (FunctionDef ''view'' (OtherExpr []) [Assign [Name ''x''] (OtherExpr [])]
                      [route_decorator] [] 2 3))) ?R)"
    using inst route body by simp_all
  have "\<exists>args body decs rets l e.
          S (FunctionDef ''view'' args body decs rets l e) \<in> set (walk (M (tree ?R)))
          \<and> list_ex is_route_decorator decs \<and> \<not> list_ex (occurs_stmt is_Try) body"
    using view_walk route body by fastforce
  then have tr: "missing_try_message ''view'' \<in> set (emitted check_endpoint_rules ?R)"
    using inst by blast
  have "\<exists>args body decs rets l e.
          S (FunctionDef ''view'' args body decs rets l e) \<in> set (walk (M (tree ?R)))
          \<and> list_ex is_route_decorator decs
          \<and> \<not> (occurs_expr is_json_call args \<or> list_ex (occurs_stmt is_json_call) body
                \<or> list_ex (occurs_expr is_json_call) decs
                \<or> list_ex (occurs_expr is_json_call) rets)"
    using view_walk route body
    by (intro exI [of _ "OtherExpr []"] exI [of _ "[Assign [Name ''x''] (OtherExpr [])]"]
        exI [of _ "[route_decorator]"] exI [of _ "[]"] exI [of _ 2] exI [of _ 3]) simp
  then have js: "missing_json_message ''view'' \<in> set (emitted check_endpoint_rules ?R)"
    using inst by blast
  from route view_walk body step tr js guarded_run show ?thesis by simp
qed

text \<open>
  C4 as stated says that a call outside the body does not satisfy the JSON check. In the
  file \<open>@app.route(jsonify()) def f(): x = 1\<close> the function is an endpoint, no json or
  jsonify call occurs in its body, and the check does not emit the JSON issue.
\<close>

theorem endpoint_subtree_checks_counterexample:
  "tree (CodeReviewer decorated_code decorated_tree)
     = Module [FunctionDef ''f'' (OtherExpr []) [Assign [Name ''x''] (OtherExpr [])]
               [Call (Attribute (Name ''app'') ''route'') [Call (Name ''jsonify'') [] []] []]
               [] 2 3]
   \<and> list_ex is_route_decorator
       [Call (Attribute (Name ''app'') ''route'') [Call (Name ''jsonify'') [] []] []]
   \<and> \<not> list_ex (occurs_stmt is_json_call) [Assign [Name ''x''] (OtherExpr [])]
   \<and> missing_json_message ''f''
       \<notin> set (emitted check_endpoint_rules (CodeReviewer decorated_code decorated_tree))
   \<and> missing_json_message ''f''
       \<notin> set (emitted (endpoint_step
                 (S (FunctionDef ''f'' (OtherExpr []) [Assign [Name ''x''] (OtherExpr [])]
                      [Call (Attribute (Name ''app'') ''route'') [Call (Name ''jsonify'') [] []] []]
                      [] 2 3)))
               (CodeReviewer decorated_code decorated_tree))"
  by (simp add: emitted_def check_endpoint_rules_def CodeReviewer_def decorated_tree_def
      walk_def append_issue_def endpoint_messages_distinct)

text \<open>
  C6, as the code has it. The three conditions of an endpoint are evaluated
  independently and each failed one yields exactly one issue, where the JSON condition
  looks at the whole function node (decorators and defaults included) and the validation
  condition fails only for a body that has a first statement which is not an If (an empty
  body yields no validation issue). Over the whole tree the check emits as many issues as
  the nodes of the walk fail conditions. An endpoint whose body is a single assignment,
  with no json or jsonify call anywhere in the function node, gets exactly the three
  issues, from its own loop body and from the check run on the file that holds it.
\<close>

theorem endpoint_issue_count:
  "(list_ex is_route_decorator decs \<longrightarrow>
     length (emitted (endpoint_step (S (FunctionDef name args body decs rets l e))) r)
       = (if list_ex (occurs_stmt is_Try) body then 0 else 1)
         + (if occurs is_json_call (S (FunctionDef name args body decs rets l e)) then 0 else 1)
         + (if body \<noteq> [] \<and> \<not> first_is_If body then 1 else 0))
   \<and> (list_ex is_route_decorator decs \<and> body = [Assign targets v]
          \<and> \<not> occurs is_json_call (S (FunctionDef name args body decs rets l e))
        \<longrightarrow> emitted (endpoint_step (S (FunctionDef name args body decs rets l e))) r
            = [missing_try_message name, missing_json_message name,
               missing_validation_message name])
   \<and> length (emitted check_endpoint_rules r)
       = sum_list (map failed_conditions (walk (M (tree r))))
   \<and> (tree r = Module [FunctionDef name args [Assign targets v] decs rets l e]
          \<and> list_ex is_route_decorator decs
          \<and> \<not> occurs is_json_call (S (FunctionDef name args [Assign targets v] decs rets l e))
        \<longrightarrow> emitted check_endpoint_rules r
            = [missing_try_message name, missing_json_message name,
               missing_validation_message name])"
proof -
  let ?node = "S (FunctionDef name args body decs rets l e)"
  have count: "list_ex is_route_decorator decs \<longrightarrow>
     length (emitted (endpoint_step ?node) r)
       = (if list_ex (occurs_stmt is_Try) body then 0 else 1)
         + (if occurs is_json_call ?node then 0 else 1)
         + (if body \<noteq> [] \<and> \<not> first_is_If body then 1 else 0)"
    using length_emitted_endpoint_step [of ?node r] by simp
  have single: "emitted (endpoint_step (S (FunctionDef name args b decs rets l e))) r
            = [missing_try_message name, missing_json_message name,
               missing_validation_message name]"
    if route: "list_ex is_route_decorator decs" and b: "b = [Assign targets v]"
      and nj: "\<not> occurs is_json_call (S (FunctionDef name args b decs rets l e))" for b
  proof -
    have "\<not> occurs is_Try (S (FunctionDef name args b decs rets l e))"
      unfolding occurs_FunctionDef_Try by (simp add: b no_Try_in_expr no_Try_in_exprs)
    with nj show ?thesis
      by (simp add: emitted_endpoint_step route b del: occurs.simps occurs_stmt.simps)
  qed
  have whole: "emitted check_endpoint_rules r
            = [missing_try_message name, missing_json_message name,
               missing_validation_message name]"
    if t: "tree r = Module [FunctionDef name args [Assign targets v] decs rets l e]"
      and route: "list_ex is_route_decorator decs"
      and nj: "\<not> occurs is_json_call
                 (S (FunctionDef name args [Assign targets v] decs rets l e))"
    using single_assignment_module [OF t] single [OF route refl nj] by simp
  from count single whole length_emitted_check_endpoint_rules [of r] show ?thesis
    by blast
qed

text \<open>
  The statement at the file \<open>@app.route("/x") def view(): x = 1\<close>, run through
  \<open>check_endpoint_rules\<close>: the walk fails three conditions, all at the function, and the
  check emits three issues, one per failed condition, in the order try/except, JSON,
  validation.
\<close>

theorem endpoint_issue_count_witness:
  "list_ex is_route_decorator [route_decorator]
   \<and> tree (CodeReviewer view_code view_tree)
       = Module [FunctionDef ''view'' (OtherExpr []) [Assign [Name ''x''] (OtherExpr [])]
                   [route_decorator] [] 2 3]
   \<and> \<not> occurs is_json_call
        (S (FunctionDef ''view'' (OtherExpr []) [Assign [Name ''x''] (OtherExpr [])]
              [route_decorator] [] 2 3))
   \<and> sum_list (map failed_conditions (walk (M (tree (CodeReviewer view_code view_tree))))) = 3
   \<and> length (emitted check_endpoint_rules (CodeReviewer view_code view_tree)) = 3
   \<and> emitted check_endpoint_rules (CodeReviewer view_code view_tree)
      = [''Endpoint `view` missing try/except block.'',
         ''Endpoint `view` must return a JSON response.'',
         ''Endpoint `view` must have a validation check at the top.'']
   \<and> emitted (endpoint_step
        (S (FunctionDef ''view'' (OtherExpr []) [Assign [Name ''x''] (OtherExpr [])]
              [route_decorator] [] 2 3)))
        (CodeReviewer view_code view_tree)
      = [''Endpoint `view` missing try/except block.'',
         ''Endpoint `view` must return a JSON response.'',
         ''Endpoint `view` must have a validation check at the top.'']"
proof -
  let ?R = "CodeReviewer view_code view_tree"
  have route: "list_ex is_route_decorator [route_decorator]"
    by (simp add: route_decorator_def)
  have t: "tree ?R = Module [FunctionDef ''view'' (OtherExpr [])
             [Assign [Name ''x''] (OtherExpr [])] [route_decorator] [] 2 3]"
    by (simp add: CodeReviewer_def view_tree_def)
  have nj: "\<not> occurs is_json_call
        (S (FunctionDef ''view'' (OtherExpr []) [Assign [Name ''x''] (OtherExpr [])]
              [route_decorator] [] 2 3))"
    by (simp add: route_decorator_def)
  have s: "sum_list (map failed_conditions (walk (M (tree ?R)))) = 3"
    by (simp add: CodeReviewer_def view_tree_def walk_def route_decorator_def)
  have m: "missing_try_message ''view'' = ''Endpoint `view` missing try/except block.''"
    "missing_json_message ''view'' = ''Endpoint `view` must return a JSON response.''"
    "missing_validation_message ''view''
       = ''Endpoint `view` must have a validation check at the top.''"
    by (simp_all add: missing_try_message_def missing_json_message_def
        missing_validation_message_def quoted_def backquote_def)
  note inst = endpoint_issue_count [where decs = "[route_decorator]" and name = "''view''"
      and args = "OtherExpr []" and body = "[Assign [Name ''x''] (OtherExpr [])]"
      and rets = "[]" and l = 2 and e = 3 and r = ?R and targets = "[Name ''x'']"
      and v = "OtherExpr []"]
  from inst route t nj s show ?thesis
    by (simp add: m del: occurs.simps occurs_stmt.simps)
qed

text \<open>
  C6 as stated gives one issue per failed condition, the conditions being read on the
  body. The tree that holds the endpoint \<open>g\<close> with an empty body: no Try, no json or
  jsonify call, no If as first statement, and the check emits two issues. The file
  \<open>@app.route(jsonify()) def f(): x = 1\<close>: a single assignment as body, no Try, no
  json or jsonify call and no If in the body, and the check emits two issues.
\<close>

theorem endpoint_issue_count_counterexample:
  "list_ex is_route_decorator [Call (Attribute (Name ''bp'') ''route'') [] []]
   \<and> \<not> occurs is_Try
        (S (FunctionDef ''g'' (OtherExpr []) []
              [Call (Attribute (Name ''bp'') ''route'') [] []] [] 3 3))
   \<and> \<not> occurs is_json_call
        (S (FunctionDef ''g'' (OtherExpr []) []
              [Call (Attribute (Name ''bp'') ''route'') [] []] [] 3 3))
   \<and> \<not> first_is_If []
   \<and> length (emitted check_endpoint_rules
        (CodeReviewer []
           (Module [FunctionDef ''g'' (OtherExpr []) []
                      [Call (Attribute (Name ''bp'') ''route'') [] []] [] 3 3]))) = 2
   \<and> tree (CodeReviewer decorated_code decorated_tree)
       = Module [FunctionDef ''f'' (OtherExpr []) [Assign [Name ''x''] (OtherExpr [])]
                 [Call (Attribute (Name ''app'') ''route'') [Call (Name ''jsonify'') [] []] []]
                 [] 2 3]
   \<and> \<not> list_ex (occurs_stmt is_Try) [Assign [Name ''x''] (OtherExpr [])]
   \<and> \<not> list_ex (occurs_stmt is_json_call) [Assign [Name ''x''] (OtherExpr [])]
   \<and> \<not> first_is_If [Assign [Name ''x''] (OtherExpr [])]
   \<and> length (emitted check_endpoint_rules (CodeReviewer decorated_code decorated_tree)) = 2"
  by (simp add: emitted_def check_endpoint_rules_def CodeReviewer_def decorated_tree_def
      walk_def append_issue_def)

section \<open>The resource lifecycle rule\<close>



section \<open>The driver\<close>

text \<open>
  C8. \<open>run_checks\<close> returns the issues of the four checks in the fixed order function
  names, variable names, endpoints, resource lifecycle: what the accumulator held before,
  followed by what each check emits; on a fresh reviewer, the concatenation of what each
  check yields when it runs alone.
\<close>

theorem run_checks_order:
  "fst (run_checks r) =
     issues r @ emitted check_function_names r @ emitted check_variable_names r
       @ emitted check_endpoint_rules r @ emitted check_db_session_rules r
   \<and> fst (run_checks (CodeReviewer c t)) =
     issues (check_function_names (CodeReviewer c t))
       @ issues (check_variable_names (CodeReviewer c t))
       @ issues (check_endpoint_rules (CodeReviewer c t))
       @ issues (check_db_session_rules (CodeReviewer c t))"
proof -
  have g: "fst (run_checks r) =
     issues r @ emitted check_function_names r @ emitted check_variable_names r
       @ emitted check_endpoint_rules r @ emitted check_db_session_rules r" for r
    by (simp add: run_checks_returns run_checks_appends)
  have "fst (run_checks (CodeReviewer c t)) =
     issues (check_function_names (CodeReviewer c t))
       @ issues (check_variable_names (CodeReviewer c t))
       @ issues (check_endpoint_rules (CodeReviewer c t))
       @ issues (check_db_session_rules (CodeReviewer c t))"
    by (simp only: issues_fresh g) (simp add: CodeReviewer_def)
  with g show ?thesis by blast
qed

lemma foobar_checks:
  "issues (check_function_names (CodeReviewer foobar_code foobar_tree))
     = [''Function name `FooBar` must be lower_snake_case.'']"
  "issues (check_variable_names (CodeReviewer foobar_code foobar_tree))
     = [''Variable name `BadVar` must be lower_snake_case.'']"
  "issues (check_endpoint_rules (CodeReviewer foobar_code foobar_tree)) = []"
  "issues (check_db_session_rules (CodeReviewer foobar_code foobar_tree)) = []"
  by (simp_all add: CodeReviewer_def foobar_code_def foobar_tree_def
      check_function_names_def check_variable_names_def check_endpoint_rules_def
      check_db_session_rules_def walk_def append_issue_def
      function_name_message_def variable_name_message_def quoted_def backquote_def
      is_snake_case_def head_class_def is_lower_def is_underscore_def
      func_code_of_def splitlines_def slice_def is_line_boundary_def newline_def)

text \<open>The statement at the FooBar file: the function issue, then the variable issue.\<close>

theorem run_checks_order_witness:
  "fst (run_checks (CodeReviewer foobar_code foobar_tree))
   = [''Function name `FooBar` must be lower_snake_case.'',
      ''Variable name `BadVar` must be lower_snake_case.'']"
  using run_checks_order [of "CodeReviewer foobar_code foobar_tree" foobar_code foobar_tree,
      THEN conjunct2]
  by (simp add: foobar_checks)

text \<open>
  C9. Running the engine leaves the tree and the source text as they were; the reviewer
  after the call differs from the reviewer before only by issues appended to the
  accumulator.
\<close>

theorem run_checks_frame:
  "tree (snd (run_checks r)) = tree r \<and> code (snd (run_checks r)) = code r
   \<and> (\<exists>new. snd (run_checks r) = r\<lparr>issues := issues r @ new\<rparr>)"
  by (simp add: run_checks_appends) blast

text \<open>The statement at the FooBar file.\<close>

theorem run_checks_frame_witness:
  "tree (snd (run_checks (CodeReviewer foobar_code foobar_tree))) = foobar_tree
   \<and> code (snd (run_checks (CodeReviewer foobar_code foobar_tree))) = foobar_code
   \<and> (\<exists>new. snd (run_checks (CodeReviewer foobar_code foobar_tree))
        = (CodeReviewer foobar_code foobar_tree)\<lparr>issues := [] @ new\<rparr>)"
  using run_checks_frame [of "CodeReviewer foobar_code foobar_tree"]
  by (simp add: CodeReviewer_def)

text \<open>
  C10. The accumulator is created once per reviewer and every check appends to it: a
  second \<open>run_checks\<close> on the same reviewer returns the issues of the first call followed
  by the same issues again.
\<close>

theorem run_checks_twice:
  "fst (run_checks (snd (run_checks (CodeReviewer c t))))
   = fst (run_checks (CodeReviewer c t)) @ fst (run_checks (CodeReviewer c t))"
  by (simp add: run_checks_returns run_checks_appends emitted_issues_irrelevant issues_CodeReviewer)

text \<open>The statement at the FooBar file: the second call returns four issues.\<close>

theorem run_checks_twice_witness:
  "fst (run_checks (snd (run_checks (CodeReviewer foobar_code foobar_tree))))
   = [''Function name `FooBar` must be lower_snake_case.'',
      ''Variable name `BadVar` must be lower_snake_case.'',
      ''Function name `FooBar` must be lower_snake_case.'',
      ''Variable name `BadVar` must be lower_snake_case.'']
   \<and> fst (run_checks (snd (run_checks (CodeReviewer foobar_code foobar_tree))))
     \<noteq> fst (run_checks (CodeReviewer foobar_code foobar_tree))"
proof -
  have first: "fst (run_checks (CodeReviewer foobar_code foobar_tree))
     = [''Function name `FooBar` must be lower_snake_case.'',
        ''Variable name `BadVar` must be lower_snake_case.'']"
    by (simp add: run_checks_returns run_checks_appends issues_CodeReviewer
        issues_fresh [symmetric] foobar_checks)
  show ?thesis
    using run_checks_twice [of foobar_code foobar_tree] by (simp add: first)
qed

end
